theory Spec2Isabelle
  imports Main "HOL-Library.AList" "HOL-Library.Sublist"
begin

section \<open>Strings and the path sanitizer\<close>

text \<open>
  The characters removed by the regular expression of \<open>sanitize_folder_name\<close>, the class
  \<^verbatim>\<open>[<>:"/\\|?*]\<close>: less-than, greater-than, colon, double quote (code 0x22), slash,
  backslash (code 0x5C), bar, question mark and star.
\<close>

definition forbidden :: "char list" where
  "forbidden = [CHR ''<'', CHR ''>'', CHR '':'', CHR 0x22, CHR ''/'', CHR 0x5C,
                CHR ''|'', CHR ''?'', CHR ''*'']"

text \<open>\<open>re.sub(class, '', name)\<close> deletes every occurrence of a character of the class.\<close>

definition sanitize_folder_name :: "string \<Rightarrow> string" where
  "sanitize_folder_name name = filter (\<lambda>c. c \<notin> set forbidden) name"

section \<open>Paths\<close>

text \<open>
  A path is the list of its components, read from the root of the modelled tree. A
  relative path of the program stands for the path it names from the working directory:
  the components of the working directory followed by its own. The flavour is the POSIX
  one of \<open>pathlib\<close>: the only separator is the slash.
\<close>

type_synonym path = "string list"

text \<open>\<open>str.split\<close> at one separator character: the empty string gives one empty piece.\<close>

fun split_on :: "char \<Rightarrow> string \<Rightarrow> string list" where
  "split_on d [] = [[]]"
| "split_on d (c # cs) =
     (if c = d then [] # split_on d cs
      else (case split_on d cs of
              [] \<Rightarrow> [[c]]
            | w # ws \<Rightarrow> (c # w) # ws))"

text \<open>
  The components \<open>pathlib\<close> keeps of a string segment: empty pieces and the piece \<open>.\<close>
  are dropped, the piece \<open>..\<close> is kept as a component.
\<close>

definition parse_parts :: "string \<Rightarrow> path" where
  "parse_parts s = filter (\<lambda>c. c \<noteq> [] \<and> c \<noteq> ''.'') (split_on CHR ''/'' s)"

text \<open>
  The operator \<open>/\<close> of \<open>pathlib\<close> with a string on the right: a segment that starts
  with a slash is absolute and replaces the path on the left.
\<close>

definition pjoin :: "path \<Rightarrow> string \<Rightarrow> path" where
  "pjoin p s = (if take 1 s = ''/'' then parse_parts s else p @ parse_parts s)"

text \<open>\<open>Path.name\<close>: the final component, the empty string for the empty path.\<close>

definition name_of :: "path \<Rightarrow> string" where
  "name_of p = (if p = [] then [] else last p)"

text \<open>\<open>str.rfind\<close> of one character: the last index where it occurs, or \<open>-1\<close>.\<close>

definition rfind :: "char \<Rightarrow> string \<Rightarrow> int" where
  "rfind c s =
     (if c \<in> set s
      then int (length s) - int (length (takeWhile (\<lambda>x. x \<noteq> c) (rev s))) - 1
      else - 1)"

text \<open>
  \<open>Path.suffix\<close>: the final component from its last dot on, when that dot is neither
  the first nor the last character of the name; the empty string otherwise.
\<close>

definition suffix_of :: "path \<Rightarrow> string" where
  "suffix_of p =
     (let nm = name_of p; i = rfind CHR ''.'' nm
      in if 0 < i \<and> i < int (length nm) - 1 then drop (nat i) nm else [])"

definition MUSIC_EXTENSIONS :: "string list" where
  "MUSIC_EXTENSIONS = [''.mp3'', ''.flac'', ''.wav'', ''.m4a'']"

section \<open>The file system\<close>

text \<open>
  A regular file carries what \<open>EasyID3\<close> reads from it: \<open>None\<close> when the file cannot be
  opened as tagged audio, otherwise the tag dictionary, each key bound to a list of values.
  A directory carries its entries in the order in which the operating system lists them.
  The tree has no symbolic links. A path is read component by component and every
  component is taken as the name of an entry: a component \<open>..\<close>, which the operating
  system reads as the parent directory, is not resolved. What is proved below about the
  place of a file is therefore stated for paths made of entry names only.
\<close>

type_synonym tags = "(string \<times> string list) list"

datatype node = File "tags option" | Dir "(string \<times> node) list"

fun lookup :: "node \<Rightarrow> path \<Rightarrow> node option" where
  "lookup n [] = Some n"
| "lookup (File c) (x # xs) = None"
| "lookup (Dir es) (x # xs) =
     (case map_of es x of None \<Rightarrow> None | Some ch \<Rightarrow> lookup ch xs)"

definition is_dir :: "node \<Rightarrow> path \<Rightarrow> bool" where
  "is_dir t p = (case lookup t p of Some (Dir es) \<Rightarrow> True | _ \<Rightarrow> False)"

text \<open>\<open>not any(dir.iterdir())\<close> on an existing directory: it has no entry.\<close>

definition is_empty_dir :: "node \<Rightarrow> path \<Rightarrow> bool" where
  "is_empty_dir t p = (lookup t p = Some (Dir []))"

text \<open>
  Storing a node at a path whose parent is a directory: an entry of that name is replaced
  where it stands, a new entry goes to the end of the listing. Nothing changes when the
  parent is missing or is a file.
\<close>

fun put :: "node \<Rightarrow> path \<Rightarrow> node \<Rightarrow> node" where
  "put n [] v = v"
| "put (File c) (x # xs) v = File c"
| "put (Dir es) (x # xs) v =
     (case map_of es x of
        None \<Rightarrow> (if xs = [] then Dir (es @ [(x, v)]) else Dir es)
      | Some ch \<Rightarrow> Dir (AList.update x (put ch xs v) es))"

text \<open>Unlinking the entry at a path (the root itself cannot be unlinked).\<close>

fun remove :: "node \<Rightarrow> path \<Rightarrow> node" where
  "remove n [] = n"
| "remove (File c) (x # xs) = File c"
| "remove (Dir es) (x # xs) =
     (if xs = [] then Dir (AList.delete x es)
      else (case map_of es x of
              None \<Rightarrow> Dir es
            | Some ch \<Rightarrow> Dir (AList.update x (remove ch xs) es)))"

datatype error =
    NotTaggedAudio
  | IndexError
  | NotADirectory
  | FileExists
  | IsADirectory
  | FileNotFound
  | InvalidArgument
  | DirectoryNotEmpty
  | DestinationExists
  | PermissionDenied
  | WriteFailed
  | OpenFailed

text \<open>
  \<open>Path.mkdir(parents=True, exist_ok=True)\<close>: every component that exists on the way must
  be a directory, the missing ones are created, an existing directory at the end is
  accepted. A regular file makes the call raise: \<open>FileExistsError\<close> when it stands at
  the end of the path, \<open>NotADirectoryError\<close> when it stands on the way.
\<close>

fun chain :: "path \<Rightarrow> node" where
  "chain [] = Dir []"
| "chain (x # xs) = Dir [(x, chain xs)]"

fun mkdir_p :: "node \<Rightarrow> path \<Rightarrow> error + node" where
  "mkdir_p (File c) p = Inl (if p = [] then FileExists else NotADirectory)"
| "mkdir_p (Dir es) [] = Inr (Dir es)"
| "mkdir_p (Dir es) (x # xs) =
     (case map_of es x of
        None \<Rightarrow> Inr (Dir (es @ [(x, chain xs)]))
      | Some ch \<Rightarrow>
          (case mkdir_p ch xs of
             Inl e \<Rightarrow> Inl e
           | Inr ch' \<Rightarrow> Inr (Dir (AList.update x ch' es))))"

text \<open>
  \<open>os.rename\<close> on one device. Renaming a path to itself does nothing. A regular file
  replaces a regular file at the destination; a directory replaces only an empty directory
  and cannot go below itself.
\<close>

definition os_rename :: "node \<Rightarrow> path \<Rightarrow> path \<Rightarrow> error + node" where
  "os_rename t src dst =
     (case lookup t src of
        None \<Rightarrow> Inl FileNotFound
      | Some n \<Rightarrow>
          if src = dst then Inr t
          else if dst = [] \<or> \<not> is_dir t (butlast dst) then Inl FileNotFound
          else (case n of
                  File c \<Rightarrow>
                    (case lookup t dst of
                       Some (Dir es) \<Rightarrow> Inl IsADirectory
                     | _ \<Rightarrow> Inr (put (remove t src) dst n))
                | Dir es \<Rightarrow>
                    if prefix src dst then Inl InvalidArgument
                    else (case lookup t dst of
                            Some (File c) \<Rightarrow> Inl NotADirectory
                          | Some (Dir ds) \<Rightarrow>
                              if ds = [] then Inr (put (remove t src) dst n)
                              else Inl DirectoryNotEmpty
                          | None \<Rightarrow> Inr (put (remove t src) dst n))))"

text \<open>
  \<open>shutil.move(src, dst)\<close>: when the destination is an existing directory the source goes
  inside it under its own name, and the call raises if that name is taken there; otherwise
  the source is renamed to the destination. On one device the copy that \<open>shutil.move\<close>
  falls back to fails wherever the rename fails.
\<close>

definition shutil_move :: "node \<Rightarrow> path \<Rightarrow> path \<Rightarrow> error + node" where
  "shutil_move t src dst =
     (if is_dir t dst then
        (if src = dst then os_rename t src dst
         else if lookup t (dst @ [name_of src]) \<noteq> None then Inl DestinationExists
         else os_rename t src (dst @ [name_of src]))
      else os_rename t src dst)"

text \<open>
  \<open>Path.rglob('*')\<close>: the entries of a directory in listing order, then the same for
  each of its subdirectories in listing order. A path that is not a directory has no
  entries.
\<close>

fun rglob_node :: "path \<Rightarrow> node \<Rightarrow> path list" where
  "rglob_node p (File c) = []"
| "rglob_node p (Dir es) =
     map (\<lambda>e. p @ [fst e]) es @ concat (map (\<lambda>e. rglob_node (p @ [fst e]) (snd e)) es)"

definition rglob :: "node \<Rightarrow> path \<Rightarrow> path list" where
  "rglob t p = (case lookup t p of None \<Rightarrow> [] | Some n \<Rightarrow> rglob_node p n)"

section \<open>Metadata, manifest and program state\<close>

text \<open>The dictionary returned by \<open>get_music_info\<close>, one field for each of its five keys.\<close>

record music_info =
  name :: string
  artists :: string
  main_artist :: string
  year :: string
  album :: string

text \<open>
  A line of the manifest: the header, or the five fields of a file and the value of
  \<open>new_path\<close>, which is \<open>None\<close> when \<open>move_music_file\<close> returned \<open>None\<close>.
\<close>

datatype row = Header | Data music_info "path option"

text \<open>
  What the logging module receives: \<open>logging.error\<close> from the decorator with the name of
  the wrapped function, and \<open>logging.info\<close> for a deleted folder.
\<close>

datatype log_entry = LogError string error | LogInfo path

record state =
  tree :: node
  manifest :: "row list"
  logs :: "log_entry list"

text \<open>
  What the program takes from its surroundings: \<open>str.upper\<close>, whether the manifest can
  be opened, whether \<open>writerow\<close> succeeds on a line (it raises, for instance, on a path
  that cannot be encoded in UTF-8 or when the device is full), and whether the operating
  system refuses to remove a directory (for instance for lack of permission). The manifest
  is kept apart from the modelled tree.
\<close>

record env =
  str_upper :: "string \<Rightarrow> string"
  sink_opens :: bool
  sink_accepts :: "row \<Rightarrow> bool"
  rmdir_refused :: "path \<Rightarrow> bool"

text \<open>A call either returns a value or raises; both leave a state behind.\<close>

datatype 'a outcome = Return 'a state | Raise error state

text \<open>
  The decorator \<open>print_errors\<close>: an exception of the wrapped call is logged under the
  name of the function and the call returns \<open>None\<close>.
\<close>

definition print_errors :: "string \<Rightarrow> 'a outcome \<Rightarrow> 'a option \<times> state" where
  "print_errors fname r =
     (case r of
        Return v s \<Rightarrow> (Some v, s)
      | Raise e s \<Rightarrow> (None, s\<lparr>logs := logs s @ [LogError fname e]\<rparr>))"

section \<open>Metadata extraction\<close>

definition EasyID3 :: "node \<Rightarrow> path \<Rightarrow> error + tags" where
  "EasyID3 t file_path =
     (case lookup t file_path of
        Some (File (Some audio)) \<Rightarrow> Inr audio
      | _ \<Rightarrow> Inl NotTaggedAudio)"

text \<open>\<open>audio.get(key, ['Unknown'])[0]\<close>: indexing an empty list of values raises.\<close>

definition get_first :: "tags \<Rightarrow> string \<Rightarrow> error + string" where
  "get_first audio key =
     (case map_of audio key of
        None \<Rightarrow> Inr ''Unknown''
      | Some [] \<Rightarrow> Inl IndexError
      | Some (v # vs) \<Rightarrow> Inr v)"

definition get_music_info_body :: "path \<Rightarrow> state \<Rightarrow> music_info outcome" where
  "get_music_info_body file_path s =
     (case EasyID3 (tree s) file_path of
        Inl e \<Rightarrow> Raise e s
      | Inr audio \<Rightarrow>
          (case (get_first audio ''title'', get_first audio ''artist'',
                 get_first audio ''albumartist'', get_first audio ''date'',
                 get_first audio ''album'') of
             (Inr a, Inr b, Inr c, Inr d, Inr e) \<Rightarrow>
               Return \<lparr>name = a, artists = b, main_artist = c, year = d, album = e\<rparr> s
           | _ \<Rightarrow> Raise IndexError s))"

definition get_music_info :: "path \<Rightarrow> state \<Rightarrow> music_info option \<times> state" where
  "get_music_info file_path s = print_errors ''get_music_info'' (get_music_info_body file_path s)"

section \<open>Destination and move\<close>

text \<open>The three local variables of \<open>move_music_file\<close>, in the order of its lines.\<close>

definition main_artist_dir :: "music_info \<Rightarrow> string" where
  "main_artist_dir info = (if main_artist info \<noteq> [] then main_artist info else ''Unknown'')"

definition first_letter :: "env \<Rightarrow> music_info \<Rightarrow> string" where
  "first_letter ev info =
     (if main_artist_dir info \<noteq> ''Unknown'' then str_upper ev (take 1 (main_artist_dir info))
      else ''Unknown'')"

definition album_dir :: "music_info \<Rightarrow> string" where
  "album_dir info =
     sanitize_folder_name (if album info \<noteq> [] then album info else ''Unknown'')"

definition new_folder :: "env \<Rightarrow> music_info \<Rightarrow> path \<Rightarrow> path" where
  "new_folder ev info base_folder =
     pjoin (pjoin (pjoin base_folder (first_letter ev info)) (main_artist_dir info)) (album_dir info)"

definition move_music_file_body ::
  "env \<Rightarrow> path \<Rightarrow> music_info \<Rightarrow> path \<Rightarrow> state \<Rightarrow> path outcome" where
  "move_music_file_body ev file_path info base_folder s =
     (case mkdir_p (tree s) (new_folder ev info base_folder) of
        Inl e \<Rightarrow> Raise e s
      | Inr t1 \<Rightarrow>
          (let new_path = pjoin (new_folder ev info base_folder) (name_of file_path)
           in case shutil_move t1 file_path new_path of
                Inl e \<Rightarrow> Raise e (s\<lparr>tree := t1\<rparr>)
              | Inr t2 \<Rightarrow> Return new_path (s\<lparr>tree := t2\<rparr>)))"

definition move_music_file ::
  "env \<Rightarrow> path \<Rightarrow> music_info \<Rightarrow> path \<Rightarrow> state \<Rightarrow> path option \<times> state" where
  "move_music_file ev file_path info base_folder s =
     print_errors ''move_music_file'' (move_music_file_body ev file_path info base_folder s)"

section \<open>Cleanup of empty folders\<close>

text \<open>\<open>Path.rmdir\<close> on a directory without entries.\<close>

definition os_rmdir :: "env \<Rightarrow> node \<Rightarrow> path \<Rightarrow> error + node" where
  "os_rmdir ev t p =
     (if rmdir_refused ev p then Inl PermissionDenied
      else if p \<noteq> [] \<and> is_empty_dir t p then Inr (remove t p)
      else Inl DirectoryNotEmpty)"

text \<open>
  The loop of \<open>delete_empty_folders\<close>. The generator of \<open>rglob\<close> is consumed while
  directories are removed; since the entries of a directory are listed in one go and only
  a directory without entries is removed, the paths it produces are those of the tree at
  the start of the loop, while each test reads the tree as it is when the path is reached.
\<close>

fun delete_loop :: "env \<Rightarrow> path list \<Rightarrow> state \<Rightarrow> unit outcome" where
  "delete_loop ev [] s = Return () s"
| "delete_loop ev (d # ds) s =
     (if is_dir (tree s) d \<and> is_empty_dir (tree s) d then
        (case os_rmdir ev (tree s) d of
           Inl e \<Rightarrow> Raise e s
         | Inr t' \<Rightarrow> delete_loop ev ds (s\<lparr>tree := t', logs := logs s @ [LogInfo d]\<rparr>))
      else delete_loop ev ds s)"

definition delete_empty_folders :: "env \<Rightarrow> path \<Rightarrow> state \<Rightarrow> state" where
  "delete_empty_folders ev folder_path s =
     snd (print_errors ''delete_empty_folders''
            (delete_loop ev (rglob (tree s) folder_path) s))"

section \<open>Batches and the pipeline\<close>

fun process_batch_body :: "env \<Rightarrow> path list \<Rightarrow> path \<Rightarrow> state \<Rightarrow> unit outcome" where
  "process_batch_body ev [] base_folder s = Return () s"
| "process_batch_body ev (file_path # files) base_folder s =
     (case get_music_info file_path s of
        (None, s1) \<Rightarrow> process_batch_body ev files base_folder s1
      | (Some info, s1) \<Rightarrow>
          (case move_music_file ev file_path info base_folder s1 of
             (new_path, s2) \<Rightarrow>
               if sink_accepts ev (Data info new_path)
               then process_batch_body ev files base_folder
                      (s2\<lparr>manifest := manifest s2 @ [Data info new_path]\<rparr>)
               else Raise WriteFailed s2))"

definition process_batch :: "env \<Rightarrow> path list \<Rightarrow> path \<Rightarrow> state \<Rightarrow> state" where
  "process_batch ev files base_folder s =
     snd (print_errors ''process_batch'' (process_batch_body ev files base_folder s))"

text \<open>
  The loop over the scanned paths: \<open>batch\<close> and \<open>batch_count\<close> are its two variables,
  the result is the batch left over at the end and the state.
\<close>

fun batch_loop ::
  "env \<Rightarrow> path list \<Rightarrow> path \<Rightarrow> int \<Rightarrow> path list \<Rightarrow> int \<Rightarrow> state \<Rightarrow> path list \<times> state" where
  "batch_loop ev [] base_folder batch_size batch batch_count s = (batch, s)"
| "batch_loop ev (file_path # files) base_folder batch_size batch batch_count s =
     (if suffix_of file_path \<in> set MUSIC_EXTENSIONS then
        (if batch_count + 1 \<ge> batch_size
         then batch_loop ev files base_folder batch_size [] 0
                (process_batch ev (batch @ [file_path]) base_folder s)
         else batch_loop ev files base_folder batch_size (batch @ [file_path])
                (batch_count + 1) s)
      else batch_loop ev files base_folder batch_size batch batch_count s)"

text \<open>
  \<open>process_music_folder\<close>. The argument \<open>output_csv\<close> has no counterpart here: the
  manifest is the field of the state that the writer appends to, and whether it can be
  opened is given by the surroundings. The header is written first, the tree is scanned
  once, and the cleanup runs after the manifest is closed.
\<close>

definition process_music_folder_body ::
  "env \<Rightarrow> path \<Rightarrow> path \<Rightarrow> bool \<Rightarrow> int \<Rightarrow> state \<Rightarrow> unit outcome" where
  "process_music_folder_body ev folder_path base_folder delete_empty batch_size s =
     (if \<not> sink_opens ev then Raise OpenFailed s
      else if \<not> sink_accepts ev Header then Raise WriteFailed s
      else
        (let s1 = s\<lparr>manifest := manifest s @ [Header]\<rparr>;
             files = rglob (tree s1) folder_path
         in case batch_loop ev files base_folder batch_size [] 0 s1 of
              (batch, s2) \<Rightarrow>
                (let s3 = (if batch \<noteq> [] then process_batch ev batch base_folder s2 else s2)
                 in Return ()
                      (if delete_empty then delete_empty_folders ev folder_path s3 else s3))))"

definition process_music_folder ::
  "env \<Rightarrow> path \<Rightarrow> path \<Rightarrow> bool \<Rightarrow> int \<Rightarrow> state \<Rightarrow> state" where
  "process_music_folder ev folder_path base_folder delete_empty batch_size s =
     snd (print_errors ''process_music_folder''
            (process_music_folder_body ev folder_path base_folder delete_empty batch_size s))"

section \<open>Concrete surroundings and inputs\<close>

text \<open>
  For runs on concrete inputs: \<open>str.upper\<close> on ASCII letters, surroundings in which the
  manifest opens, every line is written and no removal is refused, a tagged audio file
  with a title, an album artist and an album, the dictionary \<open>get_music_info\<close> returns for
  such a file, and the state of a run that starts on a tree.
\<close>

definition ascii_upper :: "string \<Rightarrow> string" where
  "ascii_upper s =
     map (\<lambda>c. if 97 \<le> (of_char c :: nat) \<and> (of_char c :: nat) \<le> 122
               then char_of (of_char c - 32 :: nat) else c) s"

definition plain_env :: env where
  "plain_env = \<lparr>str_upper = ascii_upper, sink_opens = True,
                 sink_accepts = (\<lambda>r. True), rmdir_refused = (\<lambda>p. False)\<rparr>"

definition song :: "string \<Rightarrow> string \<Rightarrow> string \<Rightarrow> node" where
  "song t a b = File (Some [(''title'', [t]), (''albumartist'', [a]), (''album'', [b])])"

definition info_of :: "string \<Rightarrow> string \<Rightarrow> string \<Rightarrow> music_info" where
  "info_of t a b =
     \<lparr>name = t, artists = ''Unknown'', main_artist = a, year = ''Unknown'', album = b\<rparr>"

definition start :: "node \<Rightarrow> state" where
  "start t = \<lparr>tree = t, manifest = [], logs = []\<rparr>"

text \<open>
  Surroundings in which \<open>writerow\<close> raises on every line whose new path ends in the
  given file name, as it does on a name that cannot be encoded, and on no other line.
\<close>

definition picky_env :: "string \<Rightarrow> env" where
  "picky_env nm =
     plain_env\<lparr>sink_accepts :=
       (\<lambda>r. case r of
              Header \<Rightarrow> True
            | Data i None \<Rightarrow> True
            | Data i (Some p) \<Rightarrow> name_of p \<noteq> nm)\<rparr>"

section \<open>Counting log entries and manifest lines\<close>

text \<open>The errors logged under the name of one function.\<close>

fun is_error_of :: "string \<Rightarrow> log_entry \<Rightarrow> bool" where
  "is_error_of f (LogError g e) = (f = g)"
| "is_error_of f (LogInfo p) = False"

definition errors_in :: "string \<Rightarrow> log_entry list \<Rightarrow> nat" where
  "errors_in f lg = length (filter (is_error_of f) lg)"

text \<open>The data lines whose last cell is empty: \<open>new_path\<close> was \<open>None\<close>.\<close>

fun unmoved_row :: "row \<Rightarrow> bool" where
  "unmoved_row (Data i None) = True"
| "unmoved_row (Data i (Some p)) = False"
| "unmoved_row Header = False"

definition unmoved :: "row list \<Rightarrow> nat" where
  "unmoved m = length (filter unmoved_row m)"

text \<open>A folder with two tagged songs of one artist and one album.\<close>

definition two_songs :: node where
  "two_songs =
     Dir [(''in'', Dir [(''a.mp3'', song ''One'' ''x'' ''y''), (''b.mp3'', song ''Two'' ''x'' ''y'')])]"

text \<open>Surroundings in which the removal of one given directory is refused.\<close>

definition refusing_env :: "path \<Rightarrow> env" where
  "refusing_env d = plain_env\<lparr>rmdir_refused := (\<lambda>p. p = d)\<rparr>"

section \<open>Well-formed trees and the scanned files\<close>

text \<open>
  The names an entry of a directory can have, and the trees of a real file system: the
  names of a directory are valid and pairwise different.
\<close>

definition valid_name :: "string \<Rightarrow> bool" where
  "valid_name s = (s \<noteq> [] \<and> s \<noteq> ''.'' \<and> s \<noteq> ''..'' \<and> CHR ''/'' \<notin> set s)"

fun wf_node :: "node \<Rightarrow> bool" where
  "wf_node (File c) = True"
| "wf_node (Dir es) =
     (distinct (map fst es) \<and> (\<forall>e \<in> set es. valid_name (fst e) \<and> wf_node (snd e)))"

text \<open>
  The loop of \<open>process_music_folder\<close> without its effects: the batches it hands to
  \<open>process_batch\<close> while it runs, in order, and the batch left over at its end.
\<close>

fun batches :: "int \<Rightarrow> path list \<Rightarrow> path list \<Rightarrow> int \<Rightarrow> path list list \<times> path list" where
  "batches batch_size [] batch batch_count = ([], batch)"
| "batches batch_size (file_path # files) batch batch_count =
     (if suffix_of file_path \<in> set MUSIC_EXTENSIONS then
        (if batch_count + 1 \<ge> batch_size
         then (case batches batch_size files [] 0 of
                 (done, rest) \<Rightarrow> ((batch @ [file_path]) # done, rest))
         else batches batch_size files (batch @ [file_path]) (batch_count + 1))
      else batches batch_size files batch batch_count)"

text \<open>
  A folder with a song, a file with an upper-case extension, a text file and a
  subfolder with a second song.
\<close>

definition mixed_folder :: node where
  "mixed_folder =
     Dir [(''in'', Dir [(''a.mp3'', song ''A'' ''x'' ''y''),
                        (''B.MP3'', song ''B'' ''x'' ''y''),
                        (''notes.txt'', File None),
                        (''sub'', Dir [(''c.flac'', song ''C'' ''x'' ''y'')])])]"

section \<open>Properties of the sanitizer\<close>

text \<open>
  Claim C6. The sanitizer is a total function on strings: applying it twice gives what
  applying it once gives, its result contains none of the nine forbidden characters, and
  a string made of forbidden characters only is sent to the empty string.
\<close>

theorem sanitize_folder_name_idempotent_clean:
  "sanitize_folder_name (sanitize_folder_name x) = sanitize_folder_name x
   \<and> set (sanitize_folder_name x) \<inter> set forbidden = {}
   \<and> (set x \<subseteq> set forbidden \<longrightarrow> sanitize_folder_name x = [])"
  unfolding sanitize_folder_name_def by (auto simp: filter_empty_conv)

theorem sanitize_folder_name_idempotent_clean_witness:
  "set ''?*:'' \<subseteq> set forbidden \<and> sanitize_folder_name ''?*:'' = []"
  using sanitize_folder_name_idempotent_clean [of "''?*:''"] by (simp add: forbidden_def)

section \<open>The destination of a move\<close>

lemma move_music_file_SomeD:
  assumes "move_music_file ev file_path info base_folder s = (Some new_path, s')"
  shows "\<exists>t1. mkdir_p (tree s) (new_folder ev info base_folder) = Inr t1
           \<and> new_path = pjoin (new_folder ev info base_folder) (name_of file_path)
           \<and> shutil_move t1 file_path new_path = Inr (tree s')
           \<and> s' = s\<lparr>tree := tree s'\<rparr>"
  using assms
  by (auto simp: move_music_file_def move_music_file_body_def print_errors_def Let_def
           split: sum.splits)

text \<open>
  Claim C1, as amended. Whenever \<open>move_music_file\<close> returns a path, that path is
  \<open>base_folder / letter / artist / sanitized(title) / file name\<close>, and it is the path
  handed to \<open>shutil.move\<close> once the folder has been created. Here \<open>artist\<close> and \<open>title\<close>
  are the fields \<open>main_artist\<close> and \<open>album\<close> of the record with an empty string replaced by
  \<open>Unknown\<close>; \<open>letter\<close> is \<open>Unknown\<close> when \<open>artist\<close> is \<open>Unknown\<close> and the uppercased first
  character of \<open>artist\<close> otherwise; \<open>artist\<close> is joined as it is and only \<open>title\<close> is
  sanitized.
\<close>

theorem move_music_file_destination:
  assumes "move_music_file ev file_path info base_folder s = (Some new_path, s')"
  shows "let artist = (if main_artist info = [] then ''Unknown'' else main_artist info);
             letter = (if artist = ''Unknown'' then ''Unknown'' else str_upper ev (take 1 artist));
             title = (if album info = [] then ''Unknown'' else album info);
             folder = pjoin (pjoin (pjoin base_folder letter) artist) (sanitize_folder_name title)
         in new_path = pjoin folder (name_of file_path)
            \<and> (\<exists>t1. mkdir_p (tree s) folder = Inr t1
                     \<and> shutil_move t1 file_path new_path = Inr (tree s'))"
  using move_music_file_SomeD [OF assms]
  by (auto simp: new_folder_def first_letter_def main_artist_dir_def album_dir_def Let_def)

theorem move_music_file_destination_witness:
  "move_music_file plain_env [''in'', ''s.mp3''] (info_of ''T'' ''ac:dc'' ''Best:Of'') [''base'']
     (start (Dir [(''in'', Dir [(''s.mp3'', song ''T'' ''ac:dc'' ''Best:Of'')])]))
   = (Some [''base'', ''A'', ''ac:dc'', ''BestOf'', ''s.mp3''],
      start (Dir [(''in'', Dir []),
                  (''base'', Dir [(''A'', Dir [(''ac:dc'', Dir [(''BestOf'',
                     Dir [(''s.mp3'', song ''T'' ''ac:dc'' ''Best:Of'')])])])])]))
   \<and> [''base'', ''A'', ''ac:dc'', ''BestOf'', ''s.mp3'']
     = pjoin (pjoin (pjoin (pjoin [''base''] (str_upper plain_env (take 1 ''ac:dc''))) ''ac:dc'')
         (sanitize_folder_name ''Best:Of'')) (name_of [''in'', ''s.mp3''])"
proof -
  have run: "move_music_file plain_env [''in'', ''s.mp3''] (info_of ''T'' ''ac:dc'' ''Best:Of'')
     [''base''] (start (Dir [(''in'', Dir [(''s.mp3'', song ''T'' ''ac:dc'' ''Best:Of'')])]))
   = (Some [''base'', ''A'', ''ac:dc'', ''BestOf'', ''s.mp3''],
      start (Dir [(''in'', Dir []),
                  (''base'', Dir [(''A'', Dir [(''ac:dc'', Dir [(''BestOf'',
                     Dir [(''s.mp3'', song ''T'' ''ac:dc'' ''Best:Of'')])])])])]))"
    by code_simp
  from move_music_file_destination [OF run] show ?thesis
    using run by (simp add: info_of_def Let_def)
qed

text \<open>
  The claim as it is written, with the fields of the record themselves in the formula,
  fails on a record whose album is the empty string: the code files the song under
  \<open>Unknown\<close>, the formula has no album level.
\<close>

theorem move_music_file_empty_album_counterexample:
  "fst (move_music_file plain_env [''in'', ''s.mp3''] (info_of ''T'' ''xy'' '''') [''base'']
          (start (Dir [(''in'', Dir [(''s.mp3'', song ''T'' ''xy'' '''')])])))
     = Some [''base'', ''X'', ''xy'', ''Unknown'', ''s.mp3'']
   \<and> pjoin (pjoin (pjoin (pjoin [''base'']
         (str_upper plain_env (take 1 (main_artist (info_of ''T'' ''xy'' '''')))))
         (main_artist (info_of ''T'' ''xy'' '''')))
         (sanitize_folder_name (album (info_of ''T'' ''xy'' ''''))))
         (name_of [''in'', ''s.mp3''])
     = [''base'', ''X'', ''xy'', ''s.mp3'']"
  by code_simp

text \<open>
  Claim C10, as amended. A record whose \<open>main_artist\<close> or \<open>album\<close> is the empty string is
  moved exactly as the record with \<open>Unknown\<close> in that field, which is what
  \<open>get_music_info\<close> stores for an absent tag. The string joined for the artist is never
  empty, the string joined for the first letter is not empty when \<open>str.upper\<close> sends no
  non-empty string to the empty one, and the string joined for the album is not empty when
  the album is empty or has a character outside the forbidden set.
\<close>

theorem empty_fields_become_unknown:
  "move_music_file ev file_path (info\<lparr>main_artist := []\<rparr>) base_folder s
     = move_music_file ev file_path (info\<lparr>main_artist := ''Unknown''\<rparr>) base_folder s
   \<and> move_music_file ev file_path (info\<lparr>album := []\<rparr>) base_folder s
     = move_music_file ev file_path (info\<lparr>album := ''Unknown''\<rparr>) base_folder s
   \<and> get_first [] ''albumartist'' = Inr ''Unknown''
   \<and> main_artist_dir info \<noteq> []
   \<and> ((\<forall>x. x \<noteq> [] \<longrightarrow> str_upper ev x \<noteq> []) \<longrightarrow> first_letter ev info \<noteq> [])
   \<and> (album info = [] \<or> (\<exists>c \<in> set (album info). c \<notin> set forbidden)
        \<longrightarrow> album_dir info \<noteq> [])"
proof -
  have a: "new_folder ev (info\<lparr>main_artist := []\<rparr>) base_folder
             = new_folder ev (info\<lparr>main_artist := ''Unknown''\<rparr>) base_folder"
    by (simp add: new_folder_def first_letter_def main_artist_dir_def album_dir_def)
  have b: "new_folder ev (info\<lparr>album := []\<rparr>) base_folder
             = new_folder ev (info\<lparr>album := ''Unknown''\<rparr>) base_folder"
    by (simp add: new_folder_def first_letter_def main_artist_dir_def album_dir_def)
  have c: "main_artist_dir info \<noteq> []"
    by (simp add: main_artist_dir_def)
  have d: "(\<forall>x. x \<noteq> [] \<longrightarrow> str_upper ev x \<noteq> []) \<longrightarrow> first_letter ev info \<noteq> []"
    using c by (auto simp: first_letter_def)
  have e: "album info = [] \<or> (\<exists>c \<in> set (album info). c \<notin> set forbidden)
             \<longrightarrow> album_dir info \<noteq> []"
    by (auto simp: album_dir_def sanitize_folder_name_def forbidden_def filter_empty_conv)
  have f: "get_first [] ''albumartist'' = Inr ''Unknown''"
    by (simp add: get_first_def)
  show ?thesis
    unfolding move_music_file_def move_music_file_body_def a b
    using c d e f by blast
qed

theorem empty_fields_become_unknown_witness:
  "\<not> (\<exists>x. x \<noteq> [] \<and> str_upper plain_env x = [])
   \<and> first_letter plain_env (info_of ''T'' ''xy'' ''a:b'') = ''X''
   \<and> (\<exists>c \<in> set (album (info_of ''T'' ''xy'' ''a:b'')). c \<notin> set forbidden)
   \<and> album_dir (info_of ''T'' ''xy'' ''a:b'') = ''ab''
   \<and> album_dir (info_of ''T'' ''xy'' '''') = ''Unknown''"
proof -
  have up: "\<forall>x. x \<noteq> [] \<longrightarrow> str_upper plain_env x \<noteq> []"
    by (simp add: plain_env_def ascii_upper_def)
  have c: "\<exists>c \<in> set (album (info_of ''T'' ''xy'' ''a:b'')). c \<notin> set forbidden"
    by (simp add: info_of_def forbidden_def)
  have v: "first_letter plain_env (info_of ''T'' ''xy'' ''a:b'') = ''X''"
    "album_dir (info_of ''T'' ''xy'' ''a:b'') = ''ab''"
    "album_dir (info_of ''T'' ''xy'' '''') = ''Unknown''"
    by code_simp+
  from empty_fields_become_unknown [of plain_env _ "info_of ''T'' ''xy'' ''a:b''"] up c v
  show ?thesis by blast
qed

text \<open>
  The consequence the claim draws fails for the album: an album made of forbidden
  characters only is not replaced, its sanitized form is the empty string, and the song is
  filed in the folder of the artist with no album level.
\<close>

theorem album_dir_empty_counterexample:
  "album (info_of ''T'' ''xy'' '':?'') \<noteq> []
   \<and> album_dir (info_of ''T'' ''xy'' '':?'') = []
   \<and> fst (move_music_file plain_env [''in'', ''s.mp3''] (info_of ''T'' ''xy'' '':?'') [''base'']
            (start (Dir [(''in'', Dir [(''s.mp3'', song ''T'' ''xy'' '':?'')])])))
     = Some [''base'', ''X'', ''xy'', ''s.mp3'']"
  by code_simp

section \<open>Facts about the decorated calls and the batch loop\<close>

lemma get_music_info_cases:
  "(\<exists>e. get_music_info file_path s
          = (None, s\<lparr>logs := logs s @ [LogError ''get_music_info'' e]\<rparr>))
   \<or> (\<exists>info. get_music_info file_path s = (Some info, s))"
  by (auto simp: get_music_info_def get_music_info_body_def print_errors_def
           split: sum.splits prod.splits)

lemma move_music_file_cases:
  "(\<exists>e t. move_music_file ev file_path info base_folder s
          = (None, s\<lparr>tree := t, logs := logs s @ [LogError ''move_music_file'' e]\<rparr>))
   \<or> (\<exists>p t. move_music_file ev file_path info base_folder s = (Some p, s\<lparr>tree := t\<rparr>))"
proof (cases "mkdir_p (tree s) (new_folder ev info base_folder)")
  case (Inl e)
  then have "move_music_file ev file_path info base_folder s
        = (None, s\<lparr>tree := tree s, logs := logs s @ [LogError ''move_music_file'' e]\<rparr>)"
    by (simp add: move_music_file_def move_music_file_body_def print_errors_def)
  then show ?thesis by blast
next
  case (Inr t1)
  show ?thesis
  proof (cases "shutil_move t1 file_path (pjoin (new_folder ev info base_folder) (name_of file_path))")
    case (Inl e)
    with Inr have "move_music_file ev file_path info base_folder s
        = (None, s\<lparr>tree := t1, logs := logs s @ [LogError ''move_music_file'' e]\<rparr>)"
      by (simp add: move_music_file_def move_music_file_body_def print_errors_def)
    then show ?thesis by blast
  next
    case (Inr t2)
    with \<open>mkdir_p (tree s) (new_folder ev info base_folder) = Inr t1\<close>
    have "move_music_file ev file_path info base_folder s
        = (Some (pjoin (new_folder ev info base_folder) (name_of file_path)), s\<lparr>tree := t2\<rparr>)"
      by (simp add: move_music_file_def move_music_file_body_def print_errors_def)
    then show ?thesis by blast
  qed
qed

lemma process_batch_body_append:
  "process_batch_body ev (a @ b) base_folder s =
     (case process_batch_body ev a base_folder s of
        Return u s1 \<Rightarrow> process_batch_body ev b base_folder s1
      | Raise e s1 \<Rightarrow> Raise e s1)"
  by (induction a arbitrary: s) (auto split: prod.splits option.splits)

lemma process_batch_body_returns:
  assumes "\<forall>r. sink_accepts ev r"
  shows "\<exists>s'. process_batch_body ev files base_folder s = Return () s'"
  using assms
  by (induction files arbitrary: s) (auto split: prod.splits option.splits)

lemma process_batch_Nil: "process_batch ev [] base_folder s = s"
  by (simp add: process_batch_def print_errors_def)

lemma process_batch_append:
  assumes "\<forall>r. sink_accepts ev r"
  shows "process_batch ev (a @ b) base_folder s
           = process_batch ev b base_folder (process_batch ev a base_folder s)"
proof -
  obtain s1 where "process_batch_body ev a base_folder s = Return () s1"
    using process_batch_body_returns [OF assms] by blast
  then show ?thesis
    by (simp add: process_batch_def process_batch_body_append print_errors_def)
qed

lemma batch_loop_all:
  assumes "\<forall>r. sink_accepts ev r"
  shows "(case batch_loop ev files base_folder batch_size batch batch_count s of
            (b, s') \<Rightarrow> process_batch ev b base_folder s')
         = process_batch ev (batch @ filter (\<lambda>f. suffix_of f \<in> set MUSIC_EXTENSIONS) files)
             base_folder s"
proof (induction files arbitrary: batch batch_count s)
  case Nil
  show ?case by simp
next
  case (Cons f files)
  let ?rest = "filter (\<lambda>f. suffix_of f \<in> set MUSIC_EXTENSIONS) files"
  show ?case
  proof (cases "suffix_of f \<in> set MUSIC_EXTENSIONS")
    case False
    then show ?thesis using Cons.IH [of batch batch_count s] by simp
  next
    case True
    show ?thesis
    proof (cases "batch_count + 1 \<ge> batch_size")
      case full: True
      have "process_batch ev ?rest base_folder (process_batch ev (batch @ [f]) base_folder s)
            = process_batch ev ((batch @ [f]) @ ?rest) base_folder s"
        by (rule process_batch_append [OF assms, symmetric])
      then show ?thesis
        using True full Cons.IH [of "[]" 0 "process_batch ev (batch @ [f]) base_folder s"]
        by simp
    next
      case False
      then show ?thesis
        using True Cons.IH [of "batch @ [f]" "batch_count + 1" s] by simp
    qed
  qed
qed

lemma process_music_folder_body_all:
  assumes "\<forall>r. sink_accepts ev r" and "sink_opens ev"
  shows "process_music_folder_body ev folder_path base_folder delete_empty batch_size s =
     Return ()
       (let s3 = process_batch ev
                   (filter (\<lambda>f. suffix_of f \<in> set MUSIC_EXTENSIONS) (rglob (tree s) folder_path))
                   base_folder (s\<lparr>manifest := manifest s @ [Header]\<rparr>)
        in if delete_empty then delete_empty_folders ev folder_path s3 else s3)"
proof -
  let ?s1 = "s\<lparr>manifest := manifest s @ [Header]\<rparr>"
  obtain b s2 where bl: "batch_loop ev (rglob (tree s) folder_path) base_folder batch_size [] 0 ?s1 = (b, s2)"
    by (cases "batch_loop ev (rglob (tree s) folder_path) base_folder batch_size [] 0 ?s1")
  have "(if b \<noteq> [] then process_batch ev b base_folder s2 else s2) = process_batch ev b base_folder s2"
    by (simp add: process_batch_Nil)
  also have "\<dots> = process_batch ev
                   (filter (\<lambda>f. suffix_of f \<in> set MUSIC_EXTENSIONS) (rglob (tree s) folder_path))
                   base_folder ?s1"
    using batch_loop_all [OF assms(1), where files = "rglob (tree s) folder_path"
        and base_folder = base_folder and batch_size = batch_size and batch = "[]"
        and batch_count = 0 and s = ?s1] bl
    by simp
  finally show ?thesis
    using assms bl by (simp add: process_music_folder_body_def Let_def)
qed

lemma errors_in_append [simp]:
  "errors_in f (a @ b) = errors_in f a + errors_in f b"
  by (simp add: errors_in_def)

lemma errors_in_single [simp]:
  "errors_in f [LogError g e] = (if f = g then 1 else 0)"
  by (simp add: errors_in_def)

lemma unmoved_append [simp]: "unmoved (a @ b) = unmoved a + unmoved b"
  by (simp add: unmoved_def)

lemma unmoved_single [simp]:
  "unmoved [Data i p] = (if p = None then 1 else 0)"
  by (cases p) (simp_all add: unmoved_def)

lemma process_batch_body_counts:
  assumes "\<forall>r. sink_accepts ev r"
  shows "\<exists>s'. process_batch_body ev files base_folder s = Return () s'
           \<and> (\<exists>rows. manifest s' = manifest s @ rows)
           \<and> length (manifest s') + errors_in ''get_music_info'' (logs s')
               = length (manifest s) + errors_in ''get_music_info'' (logs s) + length files
           \<and> unmoved (manifest s') + errors_in ''move_music_file'' (logs s)
               = unmoved (manifest s) + errors_in ''move_music_file'' (logs s')"
proof (induction files arbitrary: s)
  case Nil
  show ?case by simp
next
  case (Cons f files)
  consider (skip) e where
      "get_music_info f s = (None, s\<lparr>logs := logs s @ [LogError ''get_music_info'' e]\<rparr>)"
    | (info) info where "get_music_info f s = (Some info, s)"
    using get_music_info_cases [of f s] by blast
  then show ?case
  proof cases
    case skip
    let ?s1 = "s\<lparr>logs := logs s @ [LogError ''get_music_info'' e]\<rparr>"
    from Cons.IH [of ?s1] skip show ?thesis by auto
  next
    case info
    consider (failed) e t where
        "move_music_file ev f info base_folder s
           = (None, s\<lparr>tree := t, logs := logs s @ [LogError ''move_music_file'' e]\<rparr>)"
      | (moved) p t where
        "move_music_file ev f info base_folder s = (Some p, s\<lparr>tree := t\<rparr>)"
      using move_music_file_cases [of ev f info base_folder s] by blast
    then show ?thesis
    proof cases
      case failed
      let ?s3 = "s\<lparr>tree := t, logs := logs s @ [LogError ''move_music_file'' e],
                   manifest := manifest s @ [Data info None]\<rparr>"
      from Cons.IH [of ?s3] info failed assms show ?thesis by auto
    next
      case moved
      let ?s3 = "s\<lparr>tree := t, manifest := manifest s @ [Data info (Some p)]\<rparr>"
      from Cons.IH [of ?s3] info moved assms show ?thesis by auto
    qed
  qed
qed

section \<open>Manifest lines and skipped files\<close>

text \<open>
  Claim C2, as amended. In a batch all of whose manifest lines are written, the manifest
  only grows, the number of lines appended is the number of files of the batch less the
  files for which \<open>get_music_info\<close> logged an error, and the appended lines with an empty
  last cell are as many as the errors logged by \<open>move_music_file\<close>: a file whose metadata
  cannot be extracted has no line, a file whose folder cannot be created or that cannot be
  moved has a line with no new path.
\<close>

theorem process_batch_row_count:
  assumes "\<forall>r. sink_accepts ev r"
  shows "(\<exists>rows. manifest (process_batch ev files base_folder s) = manifest s @ rows)
         \<and> length (manifest (process_batch ev files base_folder s))
             + errors_in ''get_music_info'' (logs (process_batch ev files base_folder s))
             = length (manifest s) + errors_in ''get_music_info'' (logs s) + length files
         \<and> unmoved (manifest (process_batch ev files base_folder s))
             + errors_in ''move_music_file'' (logs s)
             = unmoved (manifest s)
               + errors_in ''move_music_file'' (logs (process_batch ev files base_folder s))"
proof -
  obtain s' where "process_batch_body ev files base_folder s = Return () s'"
    and "\<exists>rows. manifest s' = manifest s @ rows"
    and "length (manifest s') + errors_in ''get_music_info'' (logs s')
           = length (manifest s) + errors_in ''get_music_info'' (logs s) + length files"
    and "unmoved (manifest s') + errors_in ''move_music_file'' (logs s)
           = unmoved (manifest s) + errors_in ''move_music_file'' (logs s')"
    using process_batch_body_counts [OF assms, of files base_folder s] by blast
  then show ?thesis
    by (simp add: process_batch_def print_errors_def)
qed

theorem process_batch_row_count_witness:
  "(\<forall>r. sink_accepts plain_env r)
   \<and> process_batch plain_env [[''in'', ''a.mp3''], [''in'', ''c.mp3''], [''in'', ''b.mp3'']]
       [''in'', ''a.mp3''] (start two_songs)
     = \<lparr>tree = two_songs,
        manifest = [Data (info_of ''One'' ''x'' ''y'') None, Data (info_of ''Two'' ''x'' ''y'') None],
        logs = [LogError ''move_music_file'' NotADirectory,
                LogError ''get_music_info'' NotTaggedAudio,
                LogError ''move_music_file'' NotADirectory]\<rparr>
   \<and> length (manifest (process_batch plain_env
         [[''in'', ''a.mp3''], [''in'', ''c.mp3''], [''in'', ''b.mp3'']]
         [''in'', ''a.mp3''] (start two_songs)))
       + errors_in ''get_music_info'' (logs (process_batch plain_env
         [[''in'', ''a.mp3''], [''in'', ''c.mp3''], [''in'', ''b.mp3'']]
         [''in'', ''a.mp3''] (start two_songs)))
     = 3"
proof -
  have acc: "\<forall>r. sink_accepts plain_env r"
    by (simp add: plain_env_def)
  have run: "process_batch plain_env [[''in'', ''a.mp3''], [''in'', ''c.mp3''], [''in'', ''b.mp3'']]
       [''in'', ''a.mp3''] (start two_songs)
     = \<lparr>tree = two_songs,
        manifest = [Data (info_of ''One'' ''x'' ''y'') None, Data (info_of ''Two'' ''x'' ''y'') None],
        logs = [LogError ''move_music_file'' NotADirectory,
                LogError ''get_music_info'' NotTaggedAudio,
                LogError ''move_music_file'' NotADirectory]\<rparr>"
    by code_simp
  from process_batch_row_count [OF acc, of
      "[[''in'', ''a.mp3''], [''in'', ''c.mp3''], [''in'', ''b.mp3'']]" "[''in'', ''a.mp3'']"
      "start two_songs"]
  show ?thesis using acc run by (simp add: start_def errors_in_def)
qed

text \<open>
  The claim as it is written fails on a file that cannot be moved: with a regular file in
  the place of the base folder the song stays where it is, \<open>move_music_file\<close> logs its
  error and returns \<open>None\<close>, and \<open>process_batch\<close> still writes the line of the song.
\<close>

theorem unmoved_file_has_row_counterexample:
  "process_batch plain_env [[''in'', ''b.mp3'']] [''in'', ''a.mp3''] (start two_songs)
     = \<lparr>tree = two_songs,
        manifest = [Data (info_of ''Two'' ''x'' ''y'') None],
        logs = [LogError ''move_music_file'' NotADirectory]\<rparr>"
  by code_simp

text \<open>
  Claim C4. A file for which \<open>get_music_info\<close> returns \<open>None\<close> is skipped: the call logs
  one error and changes neither the tree nor the manifest, \<open>move_music_file\<close> is not
  called, and the batch goes on with the remaining files from that state.
\<close>

theorem unreadable_file_is_skipped:
  assumes "fst (get_music_info file_path s) = None"
  shows "\<exists>e. get_music_info file_path s
                 = (None, s\<lparr>logs := logs s @ [LogError ''get_music_info'' e]\<rparr>)
             \<and> process_batch_body ev (file_path # files) base_folder s
                 = process_batch_body ev files base_folder
                     (s\<lparr>logs := logs s @ [LogError ''get_music_info'' e]\<rparr>)
             \<and> process_batch ev (file_path # files) base_folder s
                 = process_batch ev files base_folder
                     (s\<lparr>logs := logs s @ [LogError ''get_music_info'' e]\<rparr>)"
proof -
  obtain e where "get_music_info file_path s
        = (None, s\<lparr>logs := logs s @ [LogError ''get_music_info'' e]\<rparr>)"
    using get_music_info_cases [of file_path s] assms by auto
  then show ?thesis by (auto simp: process_batch_def)
qed

theorem unreadable_file_is_skipped_witness:
  "fst (get_music_info [''in'', ''n.mp3'']
          (start (Dir [(''in'', Dir [(''n.mp3'', File None), (''s.mp3'', song ''T'' ''x'' ''y'')])])))
     = None
   \<and> process_batch plain_env [[''in'', ''n.mp3''], [''in'', ''s.mp3'']] [''out'']
       (start (Dir [(''in'', Dir [(''n.mp3'', File None), (''s.mp3'', song ''T'' ''x'' ''y'')])]))
     = \<lparr>tree = Dir [(''in'', Dir [(''n.mp3'', File None)]),
                     (''out'', Dir [(''X'', Dir [(''x'', Dir [(''y'',
                        Dir [(''s.mp3'', song ''T'' ''x'' ''y'')])])])])],
        manifest = [Data (info_of ''T'' ''x'' ''y'') (Some [''out'', ''X'', ''x'', ''y'', ''s.mp3''])],
        logs = [LogError ''get_music_info'' NotTaggedAudio]\<rparr>"
proof -
  let ?s = "start (Dir [(''in'', Dir [(''n.mp3'', File None), (''s.mp3'', song ''T'' ''x'' ''y'')])])"
  have h: "fst (get_music_info [''in'', ''n.mp3''] ?s) = None"
    by code_simp
  have rest: "process_batch plain_env [[''in'', ''s.mp3'']] [''out'']
       (?s\<lparr>logs := logs ?s @ [LogError ''get_music_info'' NotTaggedAudio]\<rparr>)
     = \<lparr>tree = Dir [(''in'', Dir [(''n.mp3'', File None)]),
                     (''out'', Dir [(''X'', Dir [(''x'', Dir [(''y'',
                        Dir [(''s.mp3'', song ''T'' ''x'' ''y'')])])])])],
        manifest = [Data (info_of ''T'' ''x'' ''y'') (Some [''out'', ''X'', ''x'', ''y'', ''s.mp3''])],
        logs = [LogError ''get_music_info'' NotTaggedAudio]\<rparr>"
    by code_simp
  have g: "get_music_info [''in'', ''n.mp3''] ?s
             = (None, ?s\<lparr>logs := logs ?s @ [LogError ''get_music_info'' NotTaggedAudio]\<rparr>)"
    by code_simp
  from unreadable_file_is_skipped [OF h, of plain_env "[[''in'', ''s.mp3'']]" "[''out'']"]
  obtain e where
    e1: "get_music_info [''in'', ''n.mp3''] ?s
           = (None, ?s\<lparr>logs := logs ?s @ [LogError ''get_music_info'' e]\<rparr>)"
    and e2: "process_batch plain_env [[''in'', ''n.mp3''], [''in'', ''s.mp3'']] [''out''] ?s
           = process_batch plain_env [[''in'', ''s.mp3'']] [''out'']
               (?s\<lparr>logs := logs ?s @ [LogError ''get_music_info'' e]\<rparr>)"
    by blast
  from e1 g have "e = NotTaggedAudio" by (simp add: start_def)
  with e2 rest h show ?thesis by simp
qed

section \<open>Batch size\<close>

text \<open>
  Claim C5, as amended. When every manifest line is written, the final state of the
  pipeline (tree, manifest and log) is the same for any two batch sizes, in particular for
  batch size 1 and for a batch size at least the number of candidate files.
\<close>

theorem batch_size_irrelevant:
  assumes "\<forall>r. sink_accepts ev r"
  shows "process_music_folder ev folder_path base_folder delete_empty a s
         = process_music_folder ev folder_path base_folder delete_empty b s"
proof (cases "sink_opens ev")
  case True
  show ?thesis
    by (simp add: process_music_folder_def process_music_folder_body_all [OF assms True])
next
  case False
  then show ?thesis
    by (simp add: process_music_folder_def process_music_folder_body_def)
qed

theorem batch_size_irrelevant_witness:
  "(\<forall>r. sink_accepts plain_env r)
   \<and> process_music_folder plain_env [''in''] [''out''] True 1 (start two_songs)
     = process_music_folder plain_env [''in''] [''out''] True 2 (start two_songs)
   \<and> process_music_folder plain_env [''in''] [''out''] True 1 (start two_songs)
     = \<lparr>tree = Dir [(''in'', Dir []), (''out'', Dir [(''X'', Dir [(''x'', Dir [(''y'',
                  Dir [(''a.mp3'', song ''One'' ''x'' ''y''), (''b.mp3'', song ''Two'' ''x'' ''y'')])])])])],
        manifest = [Header,
                    Data (info_of ''One'' ''x'' ''y'') (Some [''out'', ''X'', ''x'', ''y'', ''a.mp3'']),
                    Data (info_of ''Two'' ''x'' ''y'') (Some [''out'', ''X'', ''x'', ''y'', ''b.mp3''])],
        logs = []\<rparr>"
proof -
  have acc: "\<forall>r. sink_accepts plain_env r"
    by (simp add: plain_env_def)
  have run: "process_music_folder plain_env [''in''] [''out''] True 1 (start two_songs)
     = \<lparr>tree = Dir [(''in'', Dir []), (''out'', Dir [(''X'', Dir [(''x'', Dir [(''y'',
                  Dir [(''a.mp3'', song ''One'' ''x'' ''y''), (''b.mp3'', song ''Two'' ''x'' ''y'')])])])])],
        manifest = [Header,
                    Data (info_of ''One'' ''x'' ''y'') (Some [''out'', ''X'', ''x'', ''y'', ''a.mp3'']),
                    Data (info_of ''Two'' ''x'' ''y'') (Some [''out'', ''X'', ''x'', ''y'', ''b.mp3''])],
        logs = []\<rparr>"
    by code_simp
  from batch_size_irrelevant [OF acc, of "[''in'']" "[''out'']" True 1 "start two_songs" 2]
  show ?thesis using acc run by simp
qed

text \<open>
  The claim as it is written fails when \<open>writerow\<close> raises on a line: the exception
  leaves \<open>process_batch\<close> and ends the batch. With two candidate files and a first line
  that cannot be written, batch size 1 still moves and records the second file, batch
  size 2 leaves it where it is and records nothing. The first file is moved in both runs,
  since the line is written after the move.
\<close>

theorem batch_size_counterexample:
  "length (filter (\<lambda>f. suffix_of f \<in> set MUSIC_EXTENSIONS) (rglob two_songs [''in''])) = 2
   \<and> process_music_folder (picky_env ''a.mp3'') [''in''] [''out''] False 1 (start two_songs)
     = \<lparr>tree = Dir [(''in'', Dir []),
                     (''out'', Dir [(''X'', Dir [(''x'', Dir [(''y'',
                        Dir [(''a.mp3'', song ''One'' ''x'' ''y''),
                             (''b.mp3'', song ''Two'' ''x'' ''y'')])])])])],
        manifest = [Header,
                    Data (info_of ''Two'' ''x'' ''y'') (Some [''out'', ''X'', ''x'', ''y'', ''b.mp3''])],
        logs = [LogError ''process_batch'' WriteFailed]\<rparr>
   \<and> process_music_folder (picky_env ''a.mp3'') [''in''] [''out''] False 2 (start two_songs)
     = \<lparr>tree = Dir [(''in'', Dir [(''b.mp3'', song ''Two'' ''x'' ''y'')]),
                     (''out'', Dir [(''X'', Dir [(''x'', Dir [(''y'',
                        Dir [(''a.mp3'', song ''One'' ''x'' ''y'')])])])])],
        manifest = [Header],
        logs = [LogError ''process_batch'' WriteFailed]\<rparr>"
  by code_simp

section \<open>Facts about the cleanup loop, the tree and the scan\<close>

lemma delete_loop_append:
  "delete_loop ev (a @ b) s =
     (case delete_loop ev a s of
        Return u s1 \<Rightarrow> delete_loop ev b s1
      | Raise e s1 \<Rightarrow> Raise e s1)"
  by (induction a arbitrary: s) (auto split: sum.splits)

lemma delete_loop_idle:
  assumes "\<forall>d \<in> set ds. \<not> is_empty_dir (tree s) d"
  shows "delete_loop ev ds s = Return () s"
  using assms by (induction ds) auto

lemma delete_loop_logs:
  "length (logs s) \<le> length (logs (snd (print_errors f (delete_loop ev ds s))))"
proof (induction ds arbitrary: s)
  case Nil
  show ?case by (simp add: print_errors_def)
next
  case (Cons d ds)
  show ?case
  proof (cases "is_dir (tree s) d \<and> is_empty_dir (tree s) d")
    case False
    then show ?thesis using Cons.IH [of s] by auto
  next
    case True
    show ?thesis
    proof (cases "os_rmdir ev (tree s) d")
      case (Inl e)
      with True show ?thesis by (simp add: print_errors_def)
    next
      case (Inr t')
      with True Cons.IH [of "s\<lparr>tree := t', logs := logs s @ [LogInfo d]\<rparr>"]
      show ?thesis by simp
    qed
  qed
qed

lemma is_empty_dir_is_dir: "is_empty_dir t d \<Longrightarrow> is_dir t d"
  by (simp add: is_empty_dir_def is_dir_def)

lemma delete_loop_acts:
  assumes "\<exists>d \<in> set ds. is_empty_dir (tree s) d"
  shows "length (logs s) < length (logs (snd (print_errors f (delete_loop ev ds s))))"
  using assms
proof (induction ds)
  case Nil
  then show ?case by simp
next
  case (Cons d ds)
  show ?case
  proof (cases "is_empty_dir (tree s) d")
    case False
    with Cons show ?thesis by auto
  next
    case True
    note dir = is_empty_dir_is_dir [OF True]
    show ?thesis
    proof (cases "os_rmdir ev (tree s) d")
      case (Inl e)
      with True dir show ?thesis by (simp add: print_errors_def)
    next
      case (Inr t')
      with True dir
        delete_loop_logs [of "s\<lparr>tree := t', logs := logs s @ [LogInfo d]\<rparr>" f ev ds]
      show ?thesis by simp
    qed
  qed
qed

lemma delete_empty_folders_fixed_iff:
  "delete_empty_folders ev folder_path s = s
     \<longleftrightarrow> (\<forall>d \<in> set (rglob (tree s) folder_path). \<not> is_empty_dir (tree s) d)"
proof
  assume "\<forall>d \<in> set (rglob (tree s) folder_path). \<not> is_empty_dir (tree s) d"
  then show "delete_empty_folders ev folder_path s = s"
    by (simp add: delete_empty_folders_def delete_loop_idle print_errors_def)
next
  assume fixed: "delete_empty_folders ev folder_path s = s"
  show "\<forall>d \<in> set (rglob (tree s) folder_path). \<not> is_empty_dir (tree s) d"
  proof (rule ccontr)
    assume "\<not> ?thesis"
    then have "\<exists>d \<in> set (rglob (tree s) folder_path). is_empty_dir (tree s) d" by blast
    from delete_loop_acts [OF this, of "''delete_empty_folders''" ev] fixed
    show False by (simp add: delete_empty_folders_def)
  qed
qed

lemma lookup_append:
  "lookup t (p @ q) = (case lookup t p of None \<Rightarrow> None | Some n \<Rightarrow> lookup n q)"
  by (induction t p rule: lookup.induct) (auto split: option.splits)

lemma wf_node_child:
  assumes "wf_node (Dir es)" and "map_of es x = Some ch"
  shows "wf_node ch"
  using assms by (auto dest!: map_of_SomeD)

lemma wf_node_lookup:
  "wf_node t \<Longrightarrow> lookup t p = Some n \<Longrightarrow> wf_node n"
proof (induction t p rule: lookup.induct)
  case (1 n)
  then show ?case by simp
next
  case (2 c x xs)
  then show ?case by simp
next
  case (3 es x xs)
  from "3.prems" obtain ch where ch: "map_of es x = Some ch" and l: "lookup ch xs = Some n"
    by (auto split: option.splits)
  from wf_node_child [OF "3.prems"(1) ch] "3.IH" [OF ch] l show ?case by simp
qed

lemma set_rglob_node:
  "wf_node n \<Longrightarrow> set (rglob_node p n) = {p @ q | q. q \<noteq> [] \<and> lookup n q \<noteq> None}"
proof (induction p n rule: rglob_node.induct)
  case (1 p c)
  have "\<And>q. (lookup (File c) q \<noteq> None) = (q = [])"
    by (case_tac q) auto
  then show ?case by simp
next
  case (2 p es)
  have d: "distinct (map fst es)" using "2.prems" by simp
  have m: "\<And>x ch. (map_of es x = Some ch) = ((x, ch) \<in> set es)"
    using d by simp
  have ih: "\<And>e. e \<in> set es \<Longrightarrow>
      set (rglob_node (p @ [fst e]) (snd e))
        = {(p @ [fst e]) @ q | q. q \<noteq> [] \<and> lookup (snd e) q \<noteq> None}"
    using "2.IH" "2.prems" by simp
  show ?case
  proof (rule set_eqI, rule iffI)
    fix r
    assume "r \<in> set (rglob_node p (Dir es))"
    then consider (here) e where "e \<in> set es" "r = p @ [fst e]"
      | (below) e where "e \<in> set es" "r \<in> set (rglob_node (p @ [fst e]) (snd e))"
      by auto
    then show "r \<in> {p @ q | q. q \<noteq> [] \<and> lookup (Dir es) q \<noteq> None}"
    proof cases
      case here
      then have "map_of es (fst e) = Some (snd e)" using m [of "fst e" "snd e"] by simp
      then have "lookup (Dir es) [fst e] \<noteq> None" by simp
      with here show ?thesis by blast
    next
      case below
      then obtain q where q: "r = (p @ [fst e]) @ q" "q \<noteq> []" "lookup (snd e) q \<noteq> None"
        using ih [OF below(1)] by auto
      from below(1) have "map_of es (fst e) = Some (snd e)" using m [of "fst e" "snd e"] by simp
      then have "lookup (Dir es) (fst e # q) \<noteq> None" using q by simp
      moreover have "r = p @ (fst e # q)" using q by simp
      ultimately show ?thesis by blast
    qed
  next
    fix r
    assume "r \<in> {p @ q | q. q \<noteq> [] \<and> lookup (Dir es) q \<noteq> None}"
    then obtain x xs where r: "r = p @ x # xs" and l: "lookup (Dir es) (x # xs) \<noteq> None"
      by (auto simp: neq_Nil_conv)
    from l obtain ch where ch: "map_of es x = Some ch" and lc: "lookup ch xs \<noteq> None"
      by (auto split: option.splits)
    from ch have e: "(x, ch) \<in> set es" using m by simp
    show "r \<in> set (rglob_node p (Dir es))"
    proof (cases xs)
      case Nil
      with r e show ?thesis by force
    next
      case (Cons y ys)
      with lc have "(p @ [x]) @ xs \<in> set (rglob_node (p @ [fst (x, ch)]) (snd (x, ch)))"
        using ih [OF e] by auto
      with e r show ?thesis by force
    qed
  qed
qed

lemma set_rglob:
  assumes "wf_node t"
  shows "set (rglob t root) = {root @ q | q. q \<noteq> [] \<and> lookup t (root @ q) \<noteq> None}"
proof (cases "lookup t root")
  case None
  then show ?thesis by (simp add: rglob_def lookup_append)
next
  case (Some n)
  with assms have "wf_node n" by (rule wf_node_lookup)
  from set_rglob_node [OF this, of root] Some show ?thesis
    by (simp add: rglob_def lookup_append)
qed

lemma batch_loop_batches:
  "batch_loop ev files base_folder batch_size batch batch_count s
     = (snd (batches batch_size files batch batch_count),
        fold (\<lambda>b. process_batch ev b base_folder)
          (fst (batches batch_size files batch batch_count)) s)"
  by (induction files arbitrary: batch batch_count s) (auto split: prod.splits)

lemma concat_batches:
  "concat (fst (batches batch_size files batch batch_count))
     @ snd (batches batch_size files batch batch_count)
   = batch @ filter (\<lambda>f. suffix_of f \<in> set MUSIC_EXTENSIONS) files"
proof (induction files arbitrary: batch batch_count)
  case Nil
  show ?case by simp
next
  case (Cons f files)
  show ?case
    using Cons.IH [of "[]" 0] Cons.IH [of "batch @ [f]" "batch_count + 1"]
      Cons.IH [of batch batch_count]
    by (auto split: prod.splits)
qed

section \<open>The cleanup pass\<close>

text \<open>
  Claim C8, as amended. A refused removal is caught and logged at the scope of the whole
  cleanup pass: the directories listed before the refused one have been handled, the error
  is logged once under the name of \<open>delete_empty_folders\<close>, the pass ends there and the
  directories listed after it are left as they are.
\<close>

theorem cleanup_stops_at_refusal:
  assumes "rglob (tree s) folder_path = before @ d # after"
    and "delete_loop ev before s = Return () s1"
    and "is_empty_dir (tree s1) d"
    and "rmdir_refused ev d"
  shows "delete_empty_folders ev folder_path s
           = s1\<lparr>logs := logs s1 @ [LogError ''delete_empty_folders'' PermissionDenied]\<rparr>"
  using assms is_empty_dir_is_dir [OF assms(3)]
  by (simp add: delete_empty_folders_def delete_loop_append os_rmdir_def print_errors_def)

theorem cleanup_stops_at_refusal_witness:
  "rglob (Dir [(''k'', Dir []), (''a'', Dir []), (''b'', Dir [])]) [] = [[''k'']] @ [''a''] # [[''b'']]
   \<and> delete_loop (refusing_env [''a'']) [[''k'']]
       (start (Dir [(''k'', Dir []), (''a'', Dir []), (''b'', Dir [])]))
     = Return () \<lparr>tree = Dir [(''a'', Dir []), (''b'', Dir [])], manifest = [],
                  logs = [LogInfo [''k'']]\<rparr>
   \<and> is_empty_dir (Dir [(''a'', Dir []), (''b'', Dir [])]) [''a'']
   \<and> rmdir_refused (refusing_env [''a'']) [''a'']
   \<and> delete_empty_folders (refusing_env [''a'']) []
       (start (Dir [(''k'', Dir []), (''a'', Dir []), (''b'', Dir [])]))
     = \<lparr>tree = Dir [(''a'', Dir []), (''b'', Dir [])], manifest = [],
        logs = [LogInfo [''k''], LogError ''delete_empty_folders'' PermissionDenied]\<rparr>"
proof -
  let ?s = "start (Dir [(''k'', Dir []), (''a'', Dir []), (''b'', Dir [])])"
  let ?s1 = "\<lparr>tree = Dir [(''a'', Dir []), (''b'', Dir [])], manifest = [],
                  logs = [LogInfo [''k'']]\<rparr>"
  have 1: "rglob (tree ?s) [] = [[''k'']] @ [''a''] # [[''b'']]"
    by code_simp
  have 2: "delete_loop (refusing_env [''a'']) [[''k'']] ?s = Return () ?s1"
    by code_simp
  have 3: "is_empty_dir (tree ?s1) [''a'']"
    by code_simp
  have 4: "rmdir_refused (refusing_env [''a'']) [''a'']"
    by code_simp
  from cleanup_stops_at_refusal [OF 1 2 3 4] 1 2 3 4
  show ?thesis by (simp add: start_def)
qed

text \<open>
  The claim as it is written fails on two empty sibling directories when the removal of
  the first is refused: the exception leaves the loop, the second directory is not
  visited and stays, although its removal would be allowed.
\<close>

theorem cleanup_sibling_counterexample:
  "delete_empty_folders (refusing_env [''a'']) []
     (start (Dir [(''a'', Dir []), (''b'', Dir [])]))
     = \<lparr>tree = Dir [(''a'', Dir []), (''b'', Dir [])], manifest = [],
        logs = [LogError ''delete_empty_folders'' PermissionDenied]\<rparr>
   \<and> \<not> rmdir_refused (refusing_env [''a'']) [''b'']
   \<and> delete_empty_folders (refusing_env [''a'']) [] (start (Dir [(''b'', Dir [])]))
     = \<lparr>tree = Dir [], manifest = [], logs = [LogInfo [''b'']]\<rparr>"
  by code_simp

section \<open>The scanned files\<close>

text \<open>
  Claim C9, as amended. The paths that the loop of \<open>process_music_folder\<close> hands to
  \<open>process_batch\<close>, batch after batch and then the batch left over, are the entries of
  \<open>rglob\<close> whose suffix is one of the four extensions, compared as strings and thus with
  the case of the letters, in the order of \<open>rglob\<close>; and in a well-formed tree the entries
  of \<open>rglob\<close> are the paths strictly below the root that exist in the tree, files and
  directories alike. An entry with another suffix is left out; a directory is left out
  only when its name has no such suffix.
\<close>

theorem scanned_candidates:
  assumes "wf_node t"
  shows "batch_loop ev (rglob t root) base_folder batch_size [] 0 s
           = (snd (batches batch_size (rglob t root) [] 0),
              fold (\<lambda>b. process_batch ev b base_folder)
                (fst (batches batch_size (rglob t root) [] 0)) s)
         \<and> concat (fst (batches batch_size (rglob t root) [] 0))
             @ snd (batches batch_size (rglob t root) [] 0)
           = filter (\<lambda>f. suffix_of f \<in> set MUSIC_EXTENSIONS) (rglob t root)
         \<and> set (rglob t root) = {root @ q | q. q \<noteq> [] \<and> lookup t (root @ q) \<noteq> None}"
  using batch_loop_batches [of ev "rglob t root" base_folder batch_size "[]" 0 s]
    concat_batches [of batch_size "rglob t root" "[]" 0] set_rglob [OF assms, of root]
  by simp

theorem scanned_candidates_witness:
  "wf_node mixed_folder
   \<and> rglob mixed_folder [''in'']
     = [[''in'', ''a.mp3''], [''in'', ''B.MP3''], [''in'', ''notes.txt''], [''in'', ''sub''],
        [''in'', ''sub'', ''c.flac'']]
   \<and> batches 1 (rglob mixed_folder [''in'']) [] 0
     = ([[[''in'', ''a.mp3'']], [[''in'', ''sub'', ''c.flac'']]], [])
   \<and> filter (\<lambda>f. suffix_of f \<in> set MUSIC_EXTENSIONS) (rglob mixed_folder [''in''])
     = [[''in'', ''a.mp3''], [''in'', ''sub'', ''c.flac'']]"
proof -
  have wf: "wf_node mixed_folder"
    by code_simp
  have r: "rglob mixed_folder [''in'']
     = [[''in'', ''a.mp3''], [''in'', ''B.MP3''], [''in'', ''notes.txt''], [''in'', ''sub''],
        [''in'', ''sub'', ''c.flac'']]"
    by code_simp
  have b: "batches 1 (rglob mixed_folder [''in'']) [] 0
     = ([[[''in'', ''a.mp3'']], [[''in'', ''sub'', ''c.flac'']]], [])"
    by code_simp
  from scanned_candidates [OF wf, of plain_env "[''in'']" "[''out'']" 1 "start mixed_folder"]
  have "concat (fst (batches 1 (rglob mixed_folder [''in'']) [] 0))
             @ snd (batches 1 (rglob mixed_folder [''in'']) [] 0)
           = filter (\<lambda>f. suffix_of f \<in> set MUSIC_EXTENSIONS) (rglob mixed_folder [''in''])"
    by blast
  with wf r b show ?thesis by simp
qed

text \<open>
  The claim as it is written fails on a directory whose name ends in one of the
  extensions: it passes the test on the suffix, is handed to \<open>process_batch\<close> and is
  skipped only there, when \<open>get_music_info\<close> cannot read it.
\<close>

theorem directory_candidate_counterexample:
  "is_dir (Dir [(''live.mp3'', Dir [(''t.txt'', File None)])]) [''live.mp3'']
   \<and> batches 100 (rglob (Dir [(''live.mp3'', Dir [(''t.txt'', File None)])]) []) [] 0
     = ([], [[''live.mp3'']])
   \<and> process_music_folder plain_env [] [''out''] False 100
       (start (Dir [(''live.mp3'', Dir [(''t.txt'', File None)])]))
     = \<lparr>tree = Dir [(''live.mp3'', Dir [(''t.txt'', File None)])], manifest = [Header],
        logs = [LogError ''get_music_info'' NotTaggedAudio]\<rparr>"
  by code_simp

section \<open>Facts about lookups after changes of the tree\<close>

lemma lookup_Cons_Dir:
  "lookup (Dir es) (x # xs) = (case map_of es x of None \<Rightarrow> None | Some ch \<Rightarrow> lookup ch xs)"
  by simp


lemma is_dir_Nil: "is_dir t [] = (\<exists>es. t = Dir es)"
  by (cases t) (auto simp: is_dir_def)

lemma is_dir_Cons:
  "is_dir (Dir es) (x # xs) = (\<exists>ch. map_of es x = Some ch \<and> is_dir ch xs)"
  by (auto simp: is_dir_def split: option.splits)


text \<open>Every proper ancestor of an existing entry is a directory.\<close>

lemma ancestor_is_dir:
  "lookup t q = Some n \<Longrightarrow> strict_prefix p q \<Longrightarrow> is_dir t p"
proof (induction t q arbitrary: p rule: lookup.induct)
  case (1 n')
  then show ?case by simp
next
  case (2 c x xs)
  then show ?case by simp
next
  case (3 es x xs)
  from "3.prems"(1) obtain ch where ch: "map_of es x = Some ch" and l: "lookup ch xs = Some n"
    by (auto split: option.splits)
  show ?case
  proof (cases p)
    case Nil
    then show ?thesis by (simp add: is_dir_Nil)
  next
    case (Cons y ys)
    with "3.prems"(2) have "y = x" and "strict_prefix ys xs" by auto
    with "3.IH" [OF ch l] ch Cons show ?thesis by (simp add: is_dir_Cons)
  qed
qed

lemma nothing_below_file:
  assumes "lookup t p = Some (File c)" and "prefix p q" and "lookup t q = Some n"
  shows "q = p"
proof (rule ccontr)
  assume "q \<noteq> p"
  with assms(2) have "strict_prefix p q" by (simp add: strict_prefix_def)
  from ancestor_is_dir [OF assms(3) this] assms(1) show False
    by (simp add: is_dir_def)
qed



lemma lookup_remove_same: "p \<noteq> [] \<Longrightarrow> lookup (remove t p) p = None"
proof (induction t p rule: remove.induct)
  case (1 n)
  then show ?case by simp
next
  case (2 c x xs)
  then show ?case by simp
next
  case (3 es x xs)
  then show ?case
    by (auto simp: update_conv' delete_conv' split: option.splits)
qed

lemma lookup_remove_other:
  "\<not> prefix p q \<Longrightarrow> lookup (remove t p) q = lookup t q \<or> (strict_prefix q p \<and> is_dir t q \<and> is_dir (remove t p) q)"
proof (induction t p arbitrary: q rule: remove.induct)
  case (1 n)
  then show ?case by simp
next
  case (2 c x xs)
  then show ?case by simp
next
  case (3 es x xs)
  show ?case
  proof (cases q)
    case Nil
    then show ?thesis by (auto simp: is_dir_Nil split: option.splits)
  next
    case (Cons y ys)
    show ?thesis
    proof (cases "y = x")
      case False
      then show ?thesis
        by (auto simp: Cons update_conv' delete_conv' split: option.splits)
    next
      case True
      with "3.prems" Cons have np: "\<not> prefix xs ys" by auto
      then have ne: "xs \<noteq> []" by auto
      show ?thesis
      proof (cases "map_of es x")
        case None
        with True Cons ne show ?thesis by auto
      next
        case (Some ch)
        with "3.IH" [OF ne Some np] True Cons ne show ?thesis
          by (auto simp: update_conv' is_dir_Cons)
      qed
    qed
  qed
qed


lemma lookup_remove_apart:
  assumes "\<not> prefix p q" and "\<not> prefix q p"
  shows "lookup (remove t p) q = lookup t q"
  using lookup_remove_other [OF assms(1), of t] assms(2)
  by (auto simp: strict_prefix_def)













section \<open>Where a moved file is\<close>




section \<open>One run of the cleanup pass and the next\<close>

lemma rglob_node_below: "q \<in> set (rglob_node p n) \<Longrightarrow> strict_prefix p q"
proof (induction p n arbitrary: q rule: rglob_node.induct)
  case (1 p c)
  then show ?case by simp
next
  case (2 p es)
  from "2.prems" consider (here) e where "e \<in> set es" "q = p @ [fst e]"
    | (below) e where "e \<in> set es" "q \<in> set (rglob_node (p @ [fst e]) (snd e))"
    by auto
  then show ?case
  proof cases
    case here
    then show ?thesis by (auto simp: strict_prefix_def)
  next
    case below
    from "2.IH" [OF below] have "strict_prefix (p @ [fst e]) q" .
    moreover have "strict_prefix p (p @ [fst e])" by (auto simp: strict_prefix_def)
    ultimately show ?thesis by (rule prefix_order.less_trans [rotated])
  qed
qed

lemma sorted_wrt_concat_map:
  assumes "\<forall>e \<in> set es. sorted_wrt P (f e)"
    and "sorted_wrt (\<lambda>e e'. \<forall>a \<in> set (f e). \<forall>b \<in> set (f e'). P a b) es"
  shows "sorted_wrt P (concat (map f es))"
  using assms by (induction es) (auto simp: sorted_wrt_append)

lemma distinct_keys_sorted_wrt:
  "distinct (map fst es) \<Longrightarrow> sorted_wrt (\<lambda>e e'. fst e \<noteq> fst e') es"
  by (induction es) auto

lemma rglob_node_order:
  "wf_node n \<Longrightarrow> sorted_wrt (\<lambda>a b. \<not> prefix b a) (rglob_node p n)"
proof (induction p n rule: rglob_node.induct)
  case (1 p c)
  then show ?case by simp
next
  case (2 p es)
  let ?f = "\<lambda>e. rglob_node (p @ [fst e]) (snd e)"
  have keys: "sorted_wrt (\<lambda>e e'. fst e \<noteq> fst e') es"
    using "2.prems" by (simp add: distinct_keys_sorted_wrt)
  have listing: "sorted_wrt (\<lambda>a b. \<not> prefix b a) (map (\<lambda>e. p @ [fst e]) es)"
    unfolding sorted_wrt_map
    by (rule sorted_wrt_mono_rel [OF _ keys]) simp
  have each: "\<forall>e \<in> set es. sorted_wrt (\<lambda>a b. \<not> prefix b a) (?f e)"
    using "2.IH" "2.prems" by simp
  have cross: "sorted_wrt (\<lambda>e e'. \<forall>a \<in> set (?f e). \<forall>b \<in> set (?f e'). \<not> prefix b a) es"
  proof (rule sorted_wrt_mono_rel [OF _ keys])
    fix e e' :: "string \<times> node"
    assume ne: "fst e \<noteq> fst e'"
    show "\<forall>a \<in> set (?f e). \<forall>b \<in> set (?f e'). \<not> prefix b a"
    proof (intro ballI notI)
      fix a b assume "a \<in> set (?f e)" "b \<in> set (?f e')" "prefix b a"
      then have "prefix (p @ [fst e]) a" "prefix (p @ [fst e']) b" "prefix b a"
        using rglob_node_below by (auto simp: strict_prefix_def)
      then have "prefix (p @ [fst e]) a" "prefix (p @ [fst e']) a"
        by auto
      then have "prefix (p @ [fst e]) (p @ [fst e']) \<or> prefix (p @ [fst e']) (p @ [fst e])"
        by (rule prefix_same_cases)
      with ne show False by auto
    qed
  qed
  have rec: "sorted_wrt (\<lambda>a b. \<not> prefix b a) (concat (map ?f es))"
    using each cross by (rule sorted_wrt_concat_map)
  have between: "\<forall>a \<in> set (map (\<lambda>e. p @ [fst e]) es). \<forall>b \<in> set (concat (map ?f es)). \<not> prefix b a"
  proof (intro ballI notI)
    fix a b assume a: "a \<in> set (map (\<lambda>e. p @ [fst e]) es)"
      and b: "b \<in> set (concat (map ?f es))" and pre: "prefix b a"
    from a have la: "length a = Suc (length p)" by auto
    from b obtain e where "b \<in> set (?f e)" by auto
    then have "strict_prefix (p @ [fst e]) b" by (rule rglob_node_below)
    then have "length b > Suc (length p)"
      by (metis length_append_singleton prefix_length_less)
    with pre la show False
      by (metis not_less prefix_length_le)
  qed
  show ?case
    using listing rec between by (simp add: sorted_wrt_append)
qed

lemma nothing_in_empty_dir:
  assumes "is_empty_dir t d" and "strict_prefix d q"
  shows "lookup t q = None"
proof -
  from assms(2) obtain r where "q = d @ r" "r \<noteq> []"
    by (auto simp: strict_prefix_def prefix_def)
  with assms(1) show ?thesis
    by (cases r) (auto simp: lookup_append is_empty_dir_def)
qed

lemma nothing_below_removed:
  assumes "d \<noteq> []" and "prefix d q"
  shows "lookup (remove t d) q = None"
proof -
  from assms(2) obtain r where "q = d @ r" by (auto simp: prefix_def)
  with assms(1) show ?thesis
    by (simp add: lookup_append lookup_remove_same)
qed

lemma is_empty_dir_after_remove:
  assumes "is_empty_dir t d" and "d \<noteq> []" and "\<not> prefix q d"
  shows "is_empty_dir (remove t d) q = is_empty_dir t q"
proof (cases "prefix d q")
  case True
  with assms(3) have "strict_prefix d q" by (auto simp: strict_prefix_def)
  from nothing_in_empty_dir [OF assms(1) this] nothing_below_removed [OF assms(2) True, of t]
  show ?thesis by (simp add: is_empty_dir_def)
next
  case False
  from lookup_remove_apart [OF False assms(3), of t] show ?thesis
    by (simp add: is_empty_dir_def)
qed

lemma delete_loop_effect:
  assumes "\<forall>p. \<not> rmdir_refused ev p"
    and "sorted_wrt (\<lambda>a b. \<not> prefix b a) ds"
    and "[] \<notin> set ds"
  shows "delete_loop ev ds s =
           Return () (s\<lparr>tree := fold (\<lambda>d t. remove t d) (filter (is_empty_dir (tree s)) ds) (tree s),
                        logs := logs s @ map LogInfo (filter (is_empty_dir (tree s)) ds)\<rparr>)"
  using assms(2,3)
proof (induction ds arbitrary: s)
  case Nil
  show ?case by simp
next
  case (Cons d ds)
  from Cons.prems have later: "\<forall>q \<in> set ds. \<not> prefix q d"
    and sorted: "sorted_wrt (\<lambda>a b. \<not> prefix b a) ds"
    and ne: "d \<noteq> []" "[] \<notin> set ds"
    by auto
  show ?case
  proof (cases "is_empty_dir (tree s) d")
    case False
    with Cons.IH [OF sorted ne(2), of s] show ?thesis by simp
  next
    case True
    let ?s2 = "s\<lparr>tree := remove (tree s) d, logs := logs s @ [LogInfo d]\<rparr>"
    have same: "filter (is_empty_dir (tree ?s2)) ds = filter (is_empty_dir (tree s)) ds"
      using later is_empty_dir_after_remove [OF True ne(1)]
      by (intro filter_cong) auto
    have rm: "os_rmdir ev (tree s) d = Inr (remove (tree s) d)"
      using assms(1) True ne(1) by (simp add: os_rmdir_def)
    from Cons.IH [OF sorted ne(2), of ?s2] same rm True is_empty_dir_is_dir [OF True]
    show ?thesis by simp
  qed
qed

lemma rglob_order:
  assumes "wf_node t"
  shows "sorted_wrt (\<lambda>a b. \<not> prefix b a) (rglob t root) \<and> [] \<notin> set (rglob t root)"
proof (cases "lookup t root")
  case None
  then show ?thesis by (simp add: rglob_def)
next
  case (Some n)
  with assms have "wf_node n" by (rule wf_node_lookup)
  then have "sorted_wrt (\<lambda>a b. \<not> prefix b a) (rglob_node root n)"
    by (rule rglob_node_order)
  moreover have "[] \<notin> set (rglob_node root n)"
    using rglob_node_below [of "[]" root n] by auto
  ultimately show ?thesis using Some by (simp add: rglob_def)
qed

lemma delete_empty_folders_effect:
  assumes "wf_node (tree s)" and "\<forall>p. \<not> rmdir_refused ev p"
  shows "delete_empty_folders ev folder_path s =
           s\<lparr>tree := fold (\<lambda>d t. remove t d)
                       (filter (is_empty_dir (tree s)) (rglob (tree s) folder_path)) (tree s),
             logs := logs s
                       @ map LogInfo (filter (is_empty_dir (tree s)) (rglob (tree s) folder_path))\<rparr>"
  using rglob_order [OF assms(1), of folder_path]
  by (simp add: delete_empty_folders_def delete_loop_effect [OF assms(2)] print_errors_def)

text \<open>
  Claim C7, as amended. On a well-formed tree and when no removal is refused, a run of
  \<open>delete_empty_folders\<close> removes exactly the directories below the folder that are
  empty when the run starts, in the order of \<open>rglob\<close>, and logs each of them; a
  directory is tested before its own entries are reached and is not tested again. The
  second of two successive runs therefore changes nothing (no directory deleted, nothing
  logged, no error) exactly when the first run has left no empty directory below the
  folder: a directory whose only entries were empty directories is emptied by the first
  run and deleted by the second.
\<close>

theorem second_cleanup_run:
  "(wf_node (tree s) \<and> (\<forall>p. \<not> rmdir_refused ev p) \<longrightarrow>
      delete_empty_folders ev folder_path s =
        s\<lparr>tree := fold (\<lambda>d t. remove t d)
                    (filter (is_empty_dir (tree s)) (rglob (tree s) folder_path)) (tree s),
          logs := logs s
                    @ map LogInfo (filter (is_empty_dir (tree s)) (rglob (tree s) folder_path))\<rparr>)
   \<and> (delete_empty_folders ev folder_path (delete_empty_folders ev folder_path s)
          = delete_empty_folders ev folder_path s
        \<longleftrightarrow> (\<forall>d \<in> set (rglob (tree (delete_empty_folders ev folder_path s)) folder_path).
               \<not> is_empty_dir (tree (delete_empty_folders ev folder_path s)) d))"
  using delete_empty_folders_effect [of s ev folder_path]
    delete_empty_folders_fixed_iff [of ev folder_path "delete_empty_folders ev folder_path s"]
  by blast

theorem second_cleanup_run_witness:
  "wf_node (Dir [(''in'', Dir [(''old'', Dir []), (''new'', Dir [(''s.mp3'', File None)])])])
   \<and> \<not> (\<exists>p. rmdir_refused plain_env p)
   \<and> filter (is_empty_dir (Dir [(''in'', Dir [(''old'', Dir []), (''new'', Dir [(''s.mp3'', File None)])])]))
       (rglob (Dir [(''in'', Dir [(''old'', Dir []), (''new'', Dir [(''s.mp3'', File None)])])]) [''in''])
     = [[''in'', ''old'']]
   \<and> delete_empty_folders plain_env [''in'']
       (start (Dir [(''in'', Dir [(''old'', Dir []), (''new'', Dir [(''s.mp3'', File None)])])]))
     = \<lparr>tree = Dir [(''in'', Dir [(''new'', Dir [(''s.mp3'', File None)])])],
        manifest = [], logs = [LogInfo [''in'', ''old'']]\<rparr>
   \<and> \<not> (\<exists>d \<in> set (rglob (Dir [(''in'', Dir [(''new'', Dir [(''s.mp3'', File None)])])]) [''in'']).
          is_empty_dir (Dir [(''in'', Dir [(''new'', Dir [(''s.mp3'', File None)])])]) d)
   \<and> delete_empty_folders plain_env [''in'']
       (delete_empty_folders plain_env [''in'']
          (start (Dir [(''in'', Dir [(''old'', Dir []), (''new'', Dir [(''s.mp3'', File None)])])])))
     = \<lparr>tree = Dir [(''in'', Dir [(''new'', Dir [(''s.mp3'', File None)])])],
        manifest = [], logs = [LogInfo [''in'', ''old'']]\<rparr>"
proof -
  let ?t = "Dir [(''in'', Dir [(''old'', Dir []), (''new'', Dir [(''s.mp3'', File None)])])]"
  let ?s = "start ?t"
  let ?t1 = "Dir [(''in'', Dir [(''new'', Dir [(''s.mp3'', File None)])])]"
  have w: "wf_node (tree ?s)"
    by code_simp
  have a: "\<forall>p. \<not> rmdir_refused plain_env p"
    by (simp add: plain_env_def)
  have e: "filter (is_empty_dir (tree ?s)) (rglob (tree ?s) [''in'']) = [[''in'', ''old'']]"
    by code_simp
  have rm: "remove ?t [''in'', ''old''] = ?t1"
    by code_simp
  have none: "\<not> (\<exists>d \<in> set (rglob ?t1 [''in'']). is_empty_dir ?t1 d)"
    by code_simp
  note both = second_cleanup_run [of ?s plain_env "[''in'']"]
  from both w a have "delete_empty_folders plain_env [''in''] ?s =
        ?s\<lparr>tree := fold (\<lambda>d t. remove t d)
                    (filter (is_empty_dir (tree ?s)) (rglob (tree ?s) [''in''])) (tree ?s),
           logs := logs ?s
                    @ map LogInfo (filter (is_empty_dir (tree ?s)) (rglob (tree ?s) [''in'']))\<rparr>"
    by blast
  then have run: "delete_empty_folders plain_env [''in''] ?s
     = \<lparr>tree = ?t1, manifest = [], logs = [LogInfo [''in'', ''old'']]\<rparr>"
    unfolding e by (simp add: start_def rm)
  from both have "delete_empty_folders plain_env [''in''] (delete_empty_folders plain_env [''in''] ?s)
          = delete_empty_folders plain_env [''in''] ?s
        \<longleftrightarrow> (\<forall>d \<in> set (rglob (tree (delete_empty_folders plain_env [''in''] ?s)) [''in'']).
               \<not> is_empty_dir (tree (delete_empty_folders plain_env [''in''] ?s)) d)"
    by blast
  with none have again: "delete_empty_folders plain_env [''in'']
       (delete_empty_folders plain_env [''in''] ?s)
     = delete_empty_folders plain_env [''in''] ?s"
    unfolding run by simp
  have w': "wf_node ?t" using w by (simp add: start_def)
  have a': "\<not> (\<exists>p. rmdir_refused plain_env p)" using a by simp
  have e': "filter (is_empty_dir ?t) (rglob ?t [''in'']) = [[''in'', ''old'']]"
    using e by (simp add: start_def)
  from w' a' e' run none again show ?thesis
    by (simp only: simp_thms)
qed

text \<open>
  The claim as it is written fails on a directory that holds one empty directory: the
  first run deletes the inner directory only, the second run finds the outer one empty
  and deletes it.
\<close>

theorem second_cleanup_run_counterexample:
  "delete_empty_folders plain_env [] (start (Dir [(''a'', Dir [(''b'', Dir [])])]))
     = \<lparr>tree = Dir [(''a'', Dir [])], manifest = [], logs = [LogInfo [''a'', ''b'']]\<rparr>
   \<and> delete_empty_folders plain_env []
       (delete_empty_folders plain_env [] (start (Dir [(''a'', Dir [(''b'', Dir [])])])))
     = \<lparr>tree = Dir [], manifest = [], logs = [LogInfo [''a'', ''b''], LogInfo [''a'']]\<rparr>"
  by code_simp

end
